theory Spec2Isabelle
  imports Main "HOL-Library.Sublist"
begin

section \<open>JavaScript strings, numbers and arrays\<close>

text \<open>
  A JavaScript string is modelled as a \<^typ>\<open>string\<close>; the code units modelled are the
  ones below 256. Clock readings and HTTP status codes are integers (\<^typ>\<open>int\<close>,
  \<^typ>\<open>nat\<close>). A \<open>number\<close> that a caller passes in an options bag is an integral value
  or \<open>NaN\<close>; the falsy ones are \<open>0\<close> and \<open>NaN\<close>. Fractional and infinite
  values, which are truthy like every other non-zero number, are outside the model, and
  the text of an integer is its decimal text, as \<open>String\<close> gives it below \<open>10^21\<close>.
\<close>

definition digit_char :: "nat \<Rightarrow> char" where
  "digit_char d = ''0123456789'' ! d"

fun nat_toString :: "nat \<Rightarrow> string" where
  "nat_toString n =
     (if n < 10 then [digit_char n] else nat_toString (n div 10) @ [digit_char (n mod 10)])"

declare nat_toString.simps [simp del]

definition number_toString :: "int \<Rightarrow> string" where
  \<comment> \<open>\<open>String(n)\<close>, the text a template literal inserts for a number\<close>
  "number_toString i =
     (if i < 0 then CHR ''-'' # nat_toString (nat (- i)) else nat_toString (nat i))"

datatype js_number = Number int | NaN

fun js_number_text :: "js_number \<Rightarrow> string" where
  \<comment> \<open>the text a template literal inserts for a number\<close>
  "js_number_text (Number i) = number_toString i"
| "js_number_text NaN = ''NaN''"

fun truthy :: "js_number \<Rightarrow> bool" where
  \<comment> \<open>a number in a condition: \<open>0\<close> and \<open>NaN\<close> are falsy\<close>
  "truthy (Number i) = (i \<noteq> 0)"
| "truthy NaN = False"

definition truthy_number :: "js_number option \<Rightarrow> bool" where
  \<comment> \<open>an optional number in a condition: \<open>undefined\<close> is falsy too\<close>
  "truthy_number v = (case v of None \<Rightarrow> False | Some n \<Rightarrow> truthy n)"

definition truthy_string :: "string \<Rightarrow> bool" where
  "truthy_string s = (s \<noteq> [])"

fun array_join :: "string \<Rightarrow> string list \<Rightarrow> string" where
  \<comment> \<open>\<open>Array.prototype.join\<close>\<close>
  "array_join sep [] = []"
| "array_join sep [x] = x"
| "array_join sep (x # y # ys) = x @ sep @ array_join sep (y # ys)"

fun split_char :: "char \<Rightarrow> string \<Rightarrow> string list" where
  \<comment> \<open>\<open>String.prototype.split\<close> with a separator of one character\<close>
  "split_char sep [] = [[]]"
| "split_char sep (c # cs) =
     (if c = sep then [] # split_char sep cs
      else (case split_char sep cs of
              [] \<Rightarrow> [[c]]
            | x # xs \<Rightarrow> (c # x) # xs))"

definition startsWith :: "string \<Rightarrow> string \<Rightarrow> bool" where
  "startsWith s p = prefix p s"

section \<open>The URL builder (\<open>getOptimizedImageUrl\<close>)\<close>

definition CLOUDINARY_CLOUD_NAME :: string where
  "CLOUDINARY_CLOUD_NAME = ''your-cloud-name''"

definition CLOUDINARY_UPLOAD_PRESET :: string where
  "CLOUDINARY_UPLOAD_PRESET = ''your-upload-preset''"

definition CLOUDINARY_API_URL :: string where
  "CLOUDINARY_API_URL =
     ''https://api.cloudinary.com/v1_1/'' @ CLOUDINARY_CLOUD_NAME @ ''/image/upload''"

datatype quality_value = QAuto | QNumber js_number

datatype format_value = FAuto | Webp | Jpg | Png

datatype crop_value = Fill | Fit | Scale | Crop

record url_options =
  width :: "js_number option"
  height :: "js_number option"
  quality :: "quality_value option"
  format :: "format_value option"
  crop :: "crop_value option"

definition no_options :: url_options where
  \<comment> \<open>the default argument \<open>{}\<close>\<close>
  "no_options = \<lparr>width = None, height = None, quality = None, format = None, crop = None\<rparr>"

fun quality_text :: "quality_value \<Rightarrow> string" where
  "quality_text QAuto = ''auto''"
| "quality_text (QNumber n) = js_number_text n"

fun truthy_quality :: "quality_value \<Rightarrow> bool" where
  "truthy_quality QAuto = True"
| "truthy_quality (QNumber n) = truthy n"

fun format_text :: "format_value \<Rightarrow> string" where
  "format_text FAuto = ''auto''"
| "format_text Webp = ''webp''"
| "format_text Jpg = ''jpg''"
| "format_text Png = ''png''"

fun crop_text :: "crop_value \<Rightarrow> string" where
  "crop_text Fill = ''fill''"
| "crop_text Fit = ''fit''"
| "crop_text Scale = ''scale''"
| "crop_text Crop = ''crop''"

definition dimensions :: "url_options \<Rightarrow> string list" where
  \<comment> \<open>the local array \<open>dimensions\<close>, as filled when \<open>width || height\<close> holds\<close>
  "dimensions opts =
     (if truthy_number (width opts) then [''w_'' @ js_number_text (the (width opts))] else []) @
     (if truthy_number (height opts) then [''h_'' @ js_number_text (the (height opts))] else [])"

definition transformations :: "url_options \<Rightarrow> string list" where
  \<comment> \<open>the local array \<open>transformations\<close> after the four conditional pushes\<close>
  "transformations opts =
     (let w = width opts;
          h = height opts;
          q = (case quality opts of None \<Rightarrow> QAuto | Some v \<Rightarrow> v);
          f = (case format opts of None \<Rightarrow> FAuto | Some v \<Rightarrow> v);
          c = (case crop opts of None \<Rightarrow> Fill | Some v \<Rightarrow> v)
      in (if truthy_number w \<or> truthy_number h then [array_join '','' (dimensions opts)] else []) @
         (if truthy_string (crop_text c) \<and> (truthy_number w \<or> truthy_number h)
          then [''c_'' @ crop_text c] else []) @
         (if truthy_quality q then [''q_'' @ quality_text q] else []) @
         (if truthy_string (format_text f) then [''f_'' @ format_text f] else []))"

definition transformationString :: "url_options \<Rightarrow> string" where
  "transformationString opts =
     (if length (transformations opts) > 0
      then array_join '','' (transformations opts) @ ''/'' else [])"

definition url_prefix :: string where
  "url_prefix = ''https://res.cloudinary.com/'' @ CLOUDINARY_CLOUD_NAME @ ''/image/upload/''"

definition getOptimizedImageUrl :: "string \<Rightarrow> url_options \<Rightarrow> string" where
  "getOptimizedImageUrl publicId opts = url_prefix @ transformationString opts @ publicId"

section \<open>The inverse extractor (\<open>extractPublicIdFromUrl\<close>)\<close>

text \<open>
  The source matches the regular expression
  \<^verbatim>\<open>/\/upload\/(?:v\d+\/)?(.+)\.[^.]+$/\<close>
  and returns its first capture group, or the empty string when \<open>match\<close> returns
  \<open>null\<close>. The matcher below follows the backtracking order of the regular expression:
  start positions from left to right, the optional version segment tried first, the
  greedy group \<open>(.+)\<close> tried from its longest extent downwards.
\<close>

definition is_digit :: "char \<Rightarrow> bool" where
  "is_digit c = (c \<in> set ''0123456789'')"

definition line_terminator :: "char \<Rightarrow> bool" where
  \<comment> \<open>the characters that \<open>.\<close> does not match: line feed and carriage return\<close>
  "line_terminator c = (c = CHR 0x0A \<or> c = CHR 0x0D)"

definition extension_end :: "string \<Rightarrow> bool" where
  \<comment> \<open>\<open>\.[^.]+$\<close> against all of the remaining input\<close>
  "extension_end s =
     (case s of [] \<Rightarrow> False | c # e \<Rightarrow> c = CHR ''.'' \<and> e \<noteq> [] \<and> CHR ''.'' \<notin> set e)"

fun capture_upto :: "nat \<Rightarrow> string \<Rightarrow> string option" where
  \<comment> \<open>the group \<open>(.+)\<close> giving characters back, from \<open>k\<close> characters down to one\<close>
  "capture_upto 0 s = None"
| "capture_upto (Suc k) s =
     (if extension_end (drop (Suc k) s) then Some (take (Suc k) s) else capture_upto k s)"

definition capture :: "string \<Rightarrow> string option" where
  \<comment> \<open>\<open>(.+)\.[^.]+$\<close>: the group first takes every character up to a line terminator\<close>
  "capture s = capture_upto (length (takeWhile (\<lambda>c. \<not> line_terminator c) s)) s"

definition version_segment :: "string \<Rightarrow> string option" where
  \<comment> \<open>\<open>v\d+\/\<close>, returning the input after it. \<open>\d+\<close> takes every digit: with fewer, the
      next character is a digit and not the \<open>/\<close> required.\<close>
  "version_segment s =
     (case s of
        [] \<Rightarrow> None
      | c # r \<Rightarrow>
          if c = CHR ''v'' \<and> takeWhile is_digit r \<noteq> [] \<and> startsWith (dropWhile is_digit r) ''/''
          then Some (tl (dropWhile is_digit r)) else None)"

definition match_here :: "string \<Rightarrow> string option" where
  \<comment> \<open>the whole expression tried at one start position\<close>
  "match_here s =
     (if startsWith s ''/upload/'' then
        (let r = drop 8 s in
           case version_segment r of
             None \<Rightarrow> capture r
           | Some r' \<Rightarrow> (case capture r' of Some g \<Rightarrow> Some g | None \<Rightarrow> capture r))
      else None)"

fun regex_match :: "string \<Rightarrow> string option" where
  \<comment> \<open>\<open>matches[1]\<close> of \<open>url.match(...)\<close>; \<open>None\<close> when the result is \<open>null\<close>\<close>
  "regex_match [] = match_here []"
| "regex_match (c # cs) =
     (case match_here (c # cs) of Some g \<Rightarrow> Some g | None \<Rightarrow> regex_match cs)"

definition extractPublicIdFromUrl :: "string \<Rightarrow> string" where
  "extractPublicIdFromUrl url = (case regex_match url of Some g \<Rightarrow> g | None \<Rightarrow> [])"

subsection \<open>The fixed pattern, read as a language\<close>

text \<open>
  The pattern as the specification words it: somewhere in the input the text
  \<open>/upload/\<close>, then optionally a version segment \<open>v<digits>/\<close>, then a non-empty segment
  on one line, then a dot and a non-empty extension without a dot that ends the input.
  Every way of cutting the input is tried; no matching order is involved.
\<close>

definition version_text :: "string \<Rightarrow> bool" where
  "version_text v =
     (case v of
        [] \<Rightarrow> False
      | c # r \<Rightarrow> c = CHR ''v'' \<and> r \<noteq> [] \<and> last r = CHR ''/'' \<and> butlast r \<noteq> [] \<and>
                 filter (\<lambda>d. \<not> is_digit d) (butlast r) = [])"

definition segment_with_extension :: "string \<Rightarrow> bool" where
  "segment_with_extension s =
     list_ex (\<lambda>k. 0 < k \<and> filter line_terminator (take k s) = [] \<and> extension_end (drop k s))
       [0..<Suc (length s)]"

definition pattern_here :: "string \<Rightarrow> bool" where
  "pattern_here s =
     (startsWith s ''/upload/'' \<and>
      list_ex (\<lambda>m. (m = 0 \<or> version_text (take m (drop 8 s))) \<and>
                    segment_with_extension (drop m (drop 8 s)))
        [0..<Suc (length (drop 8 s))])"

definition matches_fixed_pattern :: "string \<Rightarrow> bool" where
  "matches_fixed_pattern url = list_ex (\<lambda>i. pattern_here (drop i url)) [0..<Suc (length url)]"

section \<open>The upload clients\<close>

datatype js_error =
    Error string              \<comment> \<open>an \<open>Error\<close> and its message\<close>
  | StorageError nat string   \<comment> \<open>the storage SDK's error: HTTP status and message\<close>
  | OtherValue                \<comment> \<open>a thrown value that is not an \<open>Error\<close>\<close>

fun error_message :: "js_error \<Rightarrow> string" where
  \<comment> \<open>\<open>error instanceof Error ? error.message : 'Unknown error'\<close>\<close>
  "error_message (Error m) = m"
| "error_message (StorageError st m) = m"
| "error_message OtherValue = ''Unknown error''"

type_synonym blob = "nat list"

datatype form_value =
    Blob blob string                \<comment> \<open>a blob and its file name\<close>
  | FileRef string string string    \<comment> \<open>\<open>{uri, type, name}\<close>\<close>
  | Text string

type_synonym form_data = "(string \<times> form_value) list"

record CloudinaryResponse =
  secure_url :: string
  public_id :: string
  cr_format :: string
  bytes :: int
  cr_width :: int
  cr_height :: int
  created_at :: string

record http_response =
  status :: nat
  statusText :: string
  text_result :: "js_error + string"               \<comment> \<open>\<open>await response.text()\<close>\<close>
  json_result :: "js_error + CloudinaryResponse"   \<comment> \<open>\<open>await response.json()\<close>\<close>

definition ok :: "http_response \<Rightarrow> bool" where
  \<comment> \<open>\<open>response.ok\<close>: the status is in the range 200 to 299\<close>
  "ok r = (200 \<le> status r \<and> status r \<le> 299)"

record environment =
  date_now :: int                                                  \<comment> \<open>\<open>Date.now()\<close>\<close>
  fetch_blob :: "string \<Rightarrow> js_error + blob"                      \<comment> \<open>\<open>fetch(uri)\<close>, then \<open>.blob()\<close>\<close>
  http_post :: "string \<Rightarrow> form_data \<Rightarrow> js_error + http_response"  \<comment> \<open>\<open>fetch(url, {method: 'POST', body})\<close>\<close>
  uploadBytes :: "string \<Rightarrow> blob \<Rightarrow> js_error + string"           \<comment> \<open>returns the snapshot's reference\<close>
  getDownloadURL :: "string \<Rightarrow> js_error + string"

definition fileExtension :: "string \<Rightarrow> string" where
  \<comment> \<open>\<open>fileName.split('.').pop() || 'jpg'\<close>\<close>
  "fileExtension fileName =
     (let e = last (split_char CHR ''.'' fileName) in if truthy_string e then e else ''jpg'')"

definition mimeType :: "string \<Rightarrow> string" where
  "mimeType fileName =
     ''image/'' @ (if fileExtension fileName = ''jpg'' then ''jpeg'' else fileExtension fileName)"

definition file_field :: "environment \<Rightarrow> string \<Rightarrow> string \<Rightarrow> js_error + form_value" where
  \<comment> \<open>the value appended under \<open>'file'\<close>\<close>
  "file_field env imageUri fileName =
     (if startsWith imageUri ''data:'' then
        (case fetch_blob env imageUri of
           Inl e \<Rightarrow> Inl e
         | Inr b \<Rightarrow> Inr (Blob b fileName))
      else Inr (FileRef imageUri (mimeType fileName) fileName))"

definition formData :: "environment \<Rightarrow> string \<Rightarrow> string \<Rightarrow> js_error + form_data" where
  \<comment> \<open>the multipart payload as it stands before the POST\<close>
  "formData env imageUri fileName =
     (case file_field env imageUri fileName of
        Inl e \<Rightarrow> Inl e
      | Inr v \<Rightarrow>
          Inr [(''file'', v),
               (''upload_preset'', Text CLOUDINARY_UPLOAD_PRESET),
               (''folder'', Text ''uploads''),
               (''public_id'',
                  Text (number_toString (date_now env) @ ''_'' @ hd (split_char CHR ''.'' fileName)))])"

definition cloudinary_try :: "environment \<Rightarrow> string \<Rightarrow> string \<Rightarrow> js_error + string" where
  \<comment> \<open>the \<open>try\<close> block of \<open>uploadImageToCloudinary\<close>\<close>
  "cloudinary_try env imageUri fileName =
     (case formData env imageUri fileName of
        Inl e \<Rightarrow> Inl e
      | Inr fd \<Rightarrow>
          (case http_post env CLOUDINARY_API_URL fd of
             Inl e \<Rightarrow> Inl e
           | Inr response \<Rightarrow>
               if \<not> ok response then
                 (case text_result response of
                    Inl e \<Rightarrow> Inl e
                  | Inr errorText \<Rightarrow>
                      Inl (Error (''Upload failed: '' @ nat_toString (status response) @ '' '' @
                                  statusText response)))
               else
                 (case json_result response of
                    Inl e \<Rightarrow> Inl e
                  | Inr result \<Rightarrow> Inr (secure_url result))))"

definition uploadImageToCloudinary :: "environment \<Rightarrow> string \<Rightarrow> string \<Rightarrow> js_error + string" where
  "uploadImageToCloudinary env imageUri fileName =
     (case cloudinary_try env imageUri fileName of
        Inl e \<Rightarrow> Inl (Error (''Failed to upload image to Cloudinary: '' @ error_message e))
      | Inr u \<Rightarrow> Inr u)"

definition firebase_try :: "environment \<Rightarrow> string \<Rightarrow> string \<Rightarrow> js_error + string" where
  \<comment> \<open>the \<open>try\<close> block of \<open>uploadImageToFirebase\<close>; both branches on \<open>data:\<close> fetch the blob\<close>
  "firebase_try env imageUri fileName =
     (let imageRef = ''images/'' @ number_toString (date_now env) @ ''_'' @ fileName in
        case (if startsWith imageUri ''data:'' then fetch_blob env imageUri
              else fetch_blob env imageUri) of
          Inl e \<Rightarrow> Inl e
        | Inr b \<Rightarrow>
            (case uploadBytes env imageRef b of
               Inl e \<Rightarrow> Inl e
             | Inr snapshot_ref \<Rightarrow> getDownloadURL env snapshot_ref))"

definition uploadImageToFirebase :: "environment \<Rightarrow> string \<Rightarrow> string \<Rightarrow> js_error + string" where
  "uploadImageToFirebase env imageUri fileName =
     (case firebase_try env imageUri fileName of
        Inl e \<Rightarrow> Inl (Error ''Failed to upload image to Firebase'')
      | Inr u \<Rightarrow> Inr u)"

section \<open>The image registries\<close>

subsection \<open>The upload screen (\<open>app/(tabs)/index.tsx\<close>)\<close>

record UploadedImage =
  ui_id :: string
  ui_url :: string
  ui_name :: string
  ui_uploadedAt :: int

record screen_state =
  uploadedImages :: "UploadedImage list"
  uploading :: bool

datatype alert = Alert string string

definition handleImageUpload ::
  "environment \<Rightarrow> int \<Rightarrow> int \<Rightarrow> string \<Rightarrow> string \<Rightarrow> screen_state \<Rightarrow> screen_state \<times> alert" where
  \<comment> \<open>\<open>now\<close> is the clock read for the id, \<open>date\<close> the one of \<open>new Date()\<close>\<close>
  "handleImageUpload env now date uri fileName st =
     (case uploadImageToFirebase env uri fileName of
        Inr downloadURL \<Rightarrow>
          (let newImage = \<lparr>ui_id = number_toString now, ui_url = downloadURL,
                            ui_name = fileName, ui_uploadedAt = date\<rparr>
           in (st\<lparr>uploadedImages := newImage # uploadedImages st, uploading := False\<rparr>,
               Alert ''Success'' ''Image uploaded successfully!''))
      | Inl e \<Rightarrow>
          (st\<lparr>uploading := False\<rparr>, Alert ''Error'' ''Failed to upload image. Please try again.''))"

definition screen_removeImage :: "string \<Rightarrow> screen_state \<Rightarrow> screen_state" where
  "screen_removeImage i st =
     st\<lparr>uploadedImages := filter (\<lambda>img. ui_id img \<noteq> i) (uploadedImages st)\<rparr>"

subsection \<open>The persisted image context (\<open>contexts/ImageContext.tsx\<close> of the guide)\<close>

record ImageData =
  img_id :: string
  img_url :: string
  img_uploadedAt :: int
  img_fileName :: string

record image_context =
  images :: "ImageData list"
  async_storage :: "string \<rightharpoonup> ImageData list"   \<comment> \<open>the serialised list under each key\<close>

definition setItem ::
  "js_error option \<Rightarrow> string \<Rightarrow> ImageData list \<Rightarrow> image_context \<Rightarrow> image_context \<times> (js_error + unit)" where
  \<comment> \<open>\<open>await AsyncStorage.setItem(key, JSON.stringify(value))\<close>; the first argument is the
      rejection of the write, if it is rejected\<close>
  "setItem failure key v st =
     (case failure of
        None \<Rightarrow> (st\<lparr>async_storage := (async_storage st)(key \<mapsto> v)\<rparr>, Inr ())
      | Some e \<Rightarrow> (st, Inl e))"

text \<open>
  The body of the hook runs at every render. Its constant \<open>images\<close> is what that render
  read from the state, and \<open>addImage\<close> and \<open>removeImage\<close> are closures created by that
  render: they compute the new list from that constant, not from the state at the time
  of the call, and a function object kept from an earlier render keeps the constant of
  that render. The first argument \<open>captured\<close> below is that constant; \<open>images st\<close> is the
  state, which \<open>setImages\<close> overwrites.
\<close>

definition addImage ::
  "ImageData list \<Rightarrow> js_error option \<Rightarrow> int \<Rightarrow> int \<Rightarrow> string \<Rightarrow> string \<Rightarrow> image_context \<Rightarrow>
   image_context \<times> (js_error + unit)" where
  "addImage captured failure now date url fileName st =
     (let newImage = \<lparr>img_id = number_toString now, img_url = url,
                       img_uploadedAt = date, img_fileName = fileName\<rparr>;
          updatedImages = captured @ [newImage]
      in setItem failure ''uploaded_images'' updatedImages (st\<lparr>images := updatedImages\<rparr>))"

definition removeImage ::
  "ImageData list \<Rightarrow> js_error option \<Rightarrow> string \<Rightarrow> image_context \<Rightarrow>
   image_context \<times> (js_error + unit)" where
  "removeImage captured failure i st =
     (let updatedImages = filter (\<lambda>img. img_id img \<noteq> i) captured
      in setItem failure ''uploaded_images'' updatedImages (st\<lparr>images := updatedImages\<rparr>))"

section \<open>Notions used to state the properties\<close>

definition directive_rank :: "string \<Rightarrow> nat" where
  \<comment> \<open>the place of a directive in the order width, height, crop, quality, format\<close>
  "directive_rank d =
     (if prefix ''w_'' d then 0 else if prefix ''h_'' d then 1 else if prefix ''c_'' d then 2
      else if prefix ''q_'' d then 3 else if prefix ''f_'' d then 4 else 5)"

definition directive_char :: "char \<Rightarrow> bool" where
  \<comment> \<open>the characters a directive string is made of\<close>
  "directive_char c = (is_digit c \<or> c \<in> set ''abcdefghijklmnopqrstuvwxyzN_-,/'')"

definition directive_segment :: "string \<Rightarrow> string \<Rightarrow> string" where
  \<comment> \<open>what a URL holds between the fixed prefix and the slash before the asset identifier\<close>
  "directive_segment publicId url =
     butlast (take (length url - length url_prefix - length publicId)
                (drop (length url_prefix) url))"

definition url_directives :: "string \<Rightarrow> string \<Rightarrow> string list" where
  \<comment> \<open>the directives of a URL: its directive segment cut at the commas\<close>
  "url_directives publicId url = split_char CHR '','' (directive_segment publicId url)"

definition other_directives :: "url_options \<Rightarrow> string list" where
  \<comment> \<open>the entries pushed after the dimension entry\<close>
  "other_directives opts =
     (let q = (case quality opts of None \<Rightarrow> QAuto | Some v \<Rightarrow> v);
          f = (case format opts of None \<Rightarrow> FAuto | Some v \<Rightarrow> v);
          c = (case crop opts of None \<Rightarrow> Fill | Some v \<Rightarrow> v)
      in (if truthy_string (crop_text c) \<and>
            (truthy_number (width opts) \<or> truthy_number (height opts))
          then [''c_'' @ crop_text c] else []) @
         (if truthy_quality q then [''q_'' @ quality_text q] else []) @
         (if truthy_string (format_text f) then [''f_'' @ format_text f] else []))"

definition scenario_options :: url_options where
  \<comment> \<open>\<open>{width: 400, height: 300, quality: 'auto', format: 'webp'}\<close>\<close>
  "scenario_options =
     \<lparr>width = Some (Number 400), height = Some (Number 300), quality = Some QAuto, format = Some Webp, crop = None\<rparr>"

subsection \<open>Concrete environments and registries\<close>

definition response_401 :: http_response where
  "response_401 =
     \<lparr>status = 401, statusText = ''Unauthorized'',
      text_result = Inr ''Unknown API key'',
      json_result = Inl (Error ''Unexpected token'')\<rparr>"

definition env_rejecting :: environment where
  \<comment> \<open>a backend that rejects every upload: 401 to the POST, 403 to the storage write\<close>
  "env_rejecting =
     \<lparr>date_now = 1700000000000,
      fetch_blob = (\<lambda>uri. Inr [255, 216, 255]),
      http_post = (\<lambda>url fd. Inr response_401),
      uploadBytes = (\<lambda>path b. Inl (StorageError 403 ''Firebase Storage: User does not have permission to access the object. (storage/unauthorized)'')),
      getDownloadURL = (\<lambda>path. Inr (''https://firebasestorage.googleapis.com/o/'' @ path))\<rparr>"

definition env_accepting :: environment where
  \<comment> \<open>a backend that stores every upload\<close>
  "env_accepting =
     \<lparr>date_now = 1700000000000,
      fetch_blob = (\<lambda>uri. Inr [255, 216, 255]),
      http_post = (\<lambda>url fd. Inr
         \<lparr>status = 200, statusText = ''OK'', text_result = Inr [],
          json_result = Inr \<lparr>secure_url = ''https://res.cloudinary.com/your-cloud-name/image/upload/v1/uploads/cat.jpg'',
                                 public_id = ''uploads/cat'', cr_format = ''jpg'', bytes = 3,
                                 cr_width = 1, cr_height = 1, created_at = ''2023-11-14''\<rparr>\<rparr>),
      uploadBytes = (\<lambda>path b. Inr path),
      getDownloadURL = (\<lambda>path. Inr (''https://firebasestorage.googleapis.com/o/'' @ path))\<rparr>"

definition first_image :: ImageData where
  "first_image = \<lparr>img_id = ''1'', img_url = ''u1'', img_uploadedAt = 1, img_fileName = ''a.jpg''\<rparr>"

definition context_one :: image_context where
  "context_one = \<lparr>images = [first_image], async_storage = Map.empty\<rparr>"

definition second_image :: ImageData where
  "second_image = \<lparr>img_id = ''2'', img_url = ''u2'', img_uploadedAt = 2, img_fileName = ''b.jpg''\<rparr>"

definition context_two :: image_context where
  \<comment> \<open>the registry after a second record was added\<close>
  "context_two = \<lparr>images = [first_image, second_image], async_storage = Map.empty\<rparr>"


definition screen_one :: screen_state where
  "screen_one =
     \<lparr>uploadedImages = [\<lparr>ui_id = ''1'', ui_url = ''u1'', ui_name = ''a.jpg'', ui_uploadedAt = 1\<rparr>],
      uploading = False\<rparr>"

section \<open>Numbers and joined arrays as text\<close>

lemma is_digit_digit_char: "d < 10 \<Longrightarrow> is_digit (digit_char d)"
  unfolding digit_char_def is_digit_def by (rule nth_mem) simp

lemma nat_toString_digits: "c \<in> set (nat_toString n) \<Longrightarrow> is_digit c"
proof (induction n rule: nat_toString.induct)
  case (1 n)
  show ?case
  proof (cases "n < 10")
    case True
    with 1(2) have "c = digit_char n" by (subst (asm) nat_toString.simps) simp
    with True show ?thesis by (simp only: is_digit_digit_char)
  next
    case False
    with 1(2) have "c \<in> set (nat_toString (n div 10)) \<or> c = digit_char (n mod 10)"
      by (subst (asm) nat_toString.simps) auto
    then show ?thesis
    proof
      assume "c \<in> set (nat_toString (n div 10))"
      with False 1(1) show ?thesis by simp
    next
      assume "c = digit_char (n mod 10)"
      then show ?thesis by (simp add: is_digit_digit_char)
    qed
  qed
qed

lemma nat_toString_not_Nil: "nat_toString n \<noteq> []"
  by (subst nat_toString.simps) simp

lemma number_toString_chars: "c \<in> set (number_toString i) \<Longrightarrow> is_digit c \<or> c = CHR ''-''"
  by (auto simp: number_toString_def dest: nat_toString_digits split: if_splits)

lemma js_number_text_chars:
  "c \<in> set (js_number_text v) \<Longrightarrow> is_digit c \<or> c = CHR ''-'' \<or> c = CHR ''N'' \<or> c = CHR ''a''"
  by (cases v) (auto dest: number_toString_chars)

lemma array_join_chars:
  "c \<in> set (array_join sep xs) \<Longrightarrow> c \<in> set sep \<or> (\<exists>x \<in> set xs. c \<in> set x)"
  by (induction sep xs rule: array_join.induct) auto

lemma sublist_after_foreign_prefix:
  "c \<notin> set a \<Longrightarrow> sublist (c # r) (a @ b) = sublist (c # r) b"
  by (induction a) (simp_all add: sublist_Cons_right)

section \<open>Properties of the URL builder\<close>

lemma transformations_not_Nil: "transformations opts \<noteq> []"
  by (cases "format opts"; cases "the (format opts)")
     (simp_all add: transformations_def Let_def truthy_string_def)

lemma url_shape:
  "getOptimizedImageUrl publicId opts =
     url_prefix @ array_join '','' (transformations opts) @ ''/'' @ publicId"
  using transformations_not_Nil [of opts]
  by (simp add: getOptimizedImageUrl_def transformationString_def)

lemma directive_rank_simps:
  "directive_rank (CHR ''w'' # CHR ''_'' # x) = 0"
  "directive_rank (CHR ''h'' # CHR ''_'' # x) = 1"
  "directive_rank (CHR ''c'' # CHR ''_'' # x) = 2"
  "directive_rank (CHR ''q'' # CHR ''_'' # x) = 3"
  "directive_rank (CHR ''f'' # CHR ''_'' # x) = 4"
  by (simp_all add: directive_rank_def)

lemmas url_builder_defs =
  getOptimizedImageUrl_def url_prefix_def CLOUDINARY_CLOUD_NAME_def transformationString_def
  transformations_def dimensions_def truthy_number_def truthy_string_def number_toString_def
  nat_toString.simps digit_char_def no_options_def scenario_options_def

text \<open>
  C2 (as stated). For \<open>getOptimizedImageUrl("abc123", {width: 400, height: 300, quality:
  "auto", format: "webp"})\<close> the claim expects the text after \<open>/image/upload/\<close> to be
  \<open>w_400,h_300/c_fill,q_auto,f_webp/abc123\<close>, with a slash between the dimensions and
  the crop directive. The URL returned does not end so.
\<close>

theorem C2_slash_separator_counterexample:
  "\<not> suffix ''/image/upload/w_400,h_300/c_fill,q_auto,f_webp/abc123''
       (getOptimizedImageUrl ''abc123'' scenario_options)"
  by (simp add: url_builder_defs suffix_to_prefix)

text \<open>
  C2 (amended). For that call the URL returned is the fixed prefix followed by
  \<open>w_400,h_300,c_fill,q_auto,f_webp/abc123\<close>: every directive, the default crop
  \<open>fill\<close> included, is joined to the next one by a comma, and one slash separates the
  directives from the asset identifier.
\<close>

theorem C2_scenario_url:
  "getOptimizedImageUrl ''abc123'' scenario_options =
     ''https://res.cloudinary.com/your-cloud-name/image/upload/w_400,h_300,c_fill,q_auto,f_webp/abc123''"
  by (simp add: url_builder_defs)

lemma split_char_not_Nil: "split_char sep s \<noteq> []"
  by (induction s) (auto split: list.splits)

lemma split_char_no_separator: "sep \<notin> set s \<Longrightarrow> split_char sep s = [s]"
  by (induction s) auto

lemma split_char_at_separator:
  "split_char sep (a @ sep # b) = split_char sep a @ split_char sep b"
proof (induction a)
  case Nil
  show ?case by simp
next
  case (Cons c a)
  obtain x xs where "split_char sep a = x # xs"
    using split_char_not_Nil [of sep a] by (cases "split_char sep a") auto
  with Cons show ?case by simp
qed

lemma split_char_array_join:
  "xs \<noteq> [] \<Longrightarrow> \<forall>x \<in> set xs. sep \<notin> set x \<Longrightarrow> split_char sep (array_join [sep] xs) = xs"
proof (induction "[sep]" xs rule: array_join.induct)
  case 1
  then show ?case by simp
next
  case (2 x)
  then show ?case by (simp add: split_char_no_separator)
next
  case (3 x y ys)
  then show ?case by (simp add: split_char_at_separator split_char_no_separator)
qed

lemma array_join_append:
  "xs \<noteq> [] \<Longrightarrow> ys \<noteq> [] \<Longrightarrow>
   array_join sep (xs @ ys) = array_join sep xs @ sep @ array_join sep ys"
proof (induction sep xs rule: array_join.induct)
  case (1 sep)
  then show ?case by simp
next
  case (2 sep x)
  then show ?case by (cases ys) simp_all
next
  case (3 sep x y zs)
  then show ?case by simp
qed

lemma array_join_nested:
  "ds \<noteq> [] \<Longrightarrow> array_join sep (array_join sep ds # rest) = array_join sep (ds @ rest)"
proof (cases rest)
  case Nil
  then show ?thesis by simp
next
  case (Cons r rs)
  assume "ds \<noteq> []"
  then show ?thesis using Cons by (simp add: array_join_append)
qed

lemma transformations_split:
  "transformations opts =
     (if truthy_number (width opts) \<or> truthy_number (height opts)
      then [array_join '','' (dimensions opts)] else []) @ other_directives opts"
  by (simp add: transformations_def other_directives_def Let_def)

lemma dimensions_Nil_iff:
  "(dimensions opts = []) = (\<not> (truthy_number (width opts) \<or> truthy_number (height opts)))"
  by (simp add: dimensions_def)

lemma joined_directives:
  "array_join '','' (transformations opts) =
     array_join '','' (dimensions opts @ other_directives opts)"
proof (cases "truthy_number (width opts) \<or> truthy_number (height opts)")
  case True
  then have "dimensions opts \<noteq> []" by (simp add: dimensions_Nil_iff)
  from array_join_nested [OF this] True show ?thesis by (simp add: transformations_split)
next
  case False
  then have "dimensions opts = []" by (simp add: dimensions_Nil_iff)
  with False show ?thesis by (simp add: transformations_split)
qed

lemma comma_not_digit: "\<not> is_digit CHR '',''"
  by (simp add: is_digit_def)

lemma js_number_text_no_comma: "CHR '','' \<notin> set (js_number_text n)"
  using js_number_text_chars [of "CHR '',''" n] by (auto simp: comma_not_digit)

lemma crop_text_no_comma: "CHR '','' \<notin> set (crop_text c)"
  by (cases c) simp_all

lemma format_text_no_comma: "CHR '','' \<notin> set (format_text f)"
  by (cases f) simp_all

lemma quality_text_no_comma: "CHR '','' \<notin> set (quality_text q)"
  by (cases q) (simp_all add: js_number_text_no_comma)

lemma dimensions_no_comma: "x \<in> set (dimensions opts) \<Longrightarrow> CHR '','' \<notin> set x"
  by (auto simp: dimensions_def js_number_text_no_comma split: if_splits)

lemma other_directives_no_comma: "x \<in> set (other_directives opts) \<Longrightarrow> CHR '','' \<notin> set x"
  by (auto simp: other_directives_def Let_def crop_text_no_comma format_text_no_comma
      quality_text_no_comma split: if_splits)

lemma other_directives_not_Nil: "other_directives opts \<noteq> []"
  by (cases "format opts"; cases "the (format opts)")
     (simp_all add: other_directives_def Let_def truthy_string_def)

lemma directive_segment_built:
  "directive_segment publicId (url_prefix @ seg @ ''/'' @ publicId) = seg"
  by (simp add: directive_segment_def butlast_append)

lemma url_directives_built:
  "url_directives publicId (getOptimizedImageUrl publicId opts) =
     dimensions opts @ other_directives opts"
proof -
  have "\<forall>x \<in> set (dimensions opts @ other_directives opts). CHR '','' \<notin> set x"
    by (auto dest: dimensions_no_comma other_directives_no_comma)
  moreover have "dimensions opts @ other_directives opts \<noteq> []"
    by (simp add: other_directives_not_Nil)
  ultimately have "split_char CHR '','' (array_join '','' (dimensions opts @ other_directives opts)) =
      dimensions opts @ other_directives opts"
    using split_char_array_join [of "dimensions opts @ other_directives opts" "CHR '',''"] by simp
  then show ?thesis
    by (simp only: url_directives_def url_shape directive_segment_built joined_directives)
qed

lemma built_directives_in_order:
  "sorted_wrt (<) (map directive_rank (dimensions opts @ other_directives opts))"
  by (simp add: dimensions_def other_directives_def Let_def directive_rank_simps
      sorted_wrt_append)

lemma built_directives_known:
  "filter (\<lambda>d. directive_rank d = 5) (dimensions opts @ other_directives opts) = []"
  by (simp add: dimensions_def other_directives_def Let_def directive_rank_simps)

lemma built_crop_directive_iff:
  "(filter (prefix ''c_'') (dimensions opts @ other_directives opts) \<noteq> []) =
     (truthy_number (width opts) \<or> truthy_number (height opts))"
  by (cases "crop opts"; cases "the (crop opts)")
     (simp_all add: dimensions_def other_directives_def Let_def truthy_string_def)

lemma truthy_number_iff: "truthy_number v = (\<exists>n. v = Some (Number n) \<and> n \<noteq> 0)"
proof (cases v)
  case None
  then show ?thesis by (simp add: truthy_number_def)
next
  case (Some x)
  then show ?thesis by (cases x) (simp_all add: truthy_number_def)
qed

text \<open>
  C3 (as stated). The claim lets a crop directive appear exactly when a width or a height
  is given. With the width given as \<open>0\<close> and no height, a width is given and the URL
  holds no crop directive.
\<close>

theorem C3_zero_width_counterexample:
  "\<not> ((filter (prefix ''c_'')
          (url_directives ''abc123''
             (getOptimizedImageUrl ''abc123'' (no_options\<lparr>width := Some (Number 0)\<rparr>))) \<noteq> []) =
       (width (no_options\<lparr>width := Some (Number 0)\<rparr>) \<noteq> None \<or>
        height (no_options\<lparr>width := Some (Number 0)\<rparr>) \<noteq> None))"
  by (simp add: url_builder_defs url_directives_def directive_segment_def)

text \<open>
  C3 (amended). For every combination of options and every asset identifier, the
  returned URL is the fixed prefix, a directive segment, a slash and the asset
  identifier, and the directives of that segment (its parts between the commas) are in
  the order width, height, crop, quality, format: their ranks increase strictly, so each
  kind occurs at most once, and no other kind of directive occurs. A crop directive is
  among them if and only if the width or the height is given and is neither zero nor
  \<open>NaN\<close>.
\<close>

theorem C3_directive_order:
  "getOptimizedImageUrl publicId opts =
     url_prefix @ directive_segment publicId (getOptimizedImageUrl publicId opts) @ ''/'' @
     publicId \<and>
   sorted_wrt (<)
     (map directive_rank (url_directives publicId (getOptimizedImageUrl publicId opts))) \<and>
   filter (\<lambda>d. directive_rank d = 5)
     (url_directives publicId (getOptimizedImageUrl publicId opts)) = [] \<and>
   ((filter (prefix ''c_'') (url_directives publicId (getOptimizedImageUrl publicId opts)) \<noteq> []) =
      ((\<exists>n. width opts = Some (Number n) \<and> n \<noteq> 0) \<or>
       (\<exists>n. height opts = Some (Number n) \<and> n \<noteq> 0)))"
proof (intro conjI)
  have "directive_segment publicId (getOptimizedImageUrl publicId opts) =
      array_join '','' (transformations opts)"
    by (simp only: url_shape directive_segment_built)
  then show "getOptimizedImageUrl publicId opts =
     url_prefix @ directive_segment publicId (getOptimizedImageUrl publicId opts) @ ''/'' @
     publicId"
    using url_shape [of publicId opts] by simp
  show "sorted_wrt (<)
     (map directive_rank (url_directives publicId (getOptimizedImageUrl publicId opts)))"
    by (simp only: url_directives_built built_directives_in_order)
  show "filter (\<lambda>d. directive_rank d = 5)
     (url_directives publicId (getOptimizedImageUrl publicId opts)) = []"
    by (simp only: url_directives_built built_directives_known)
  show "(filter (prefix ''c_'') (url_directives publicId (getOptimizedImageUrl publicId opts)) \<noteq> []) =
      ((\<exists>n. width opts = Some (Number n) \<and> n \<noteq> 0) \<or>
       (\<exists>n. height opts = Some (Number n) \<and> n \<noteq> 0))"
    by (simp only: url_directives_built built_crop_directive_iff truthy_number_iff)
qed

theorem C3_directive_order_witness:
  "url_directives ''abc123'' (getOptimizedImageUrl ''abc123'' scenario_options) =
     [''w_400'', ''h_300'', ''c_fill'', ''q_auto'', ''f_webp''] \<and>
   map directive_rank (url_directives ''abc123'' (getOptimizedImageUrl ''abc123'' scenario_options)) =
     [0, 1, 2, 3, 4] \<and>
   sorted_wrt (<)
     (map directive_rank (url_directives ''abc123'' (getOptimizedImageUrl ''abc123'' scenario_options))) \<and>
   filter (prefix ''c_'') (url_directives ''abc123'' (getOptimizedImageUrl ''abc123'' scenario_options)) \<noteq> []"
proof -
  have u: "url_directives ''abc123'' (getOptimizedImageUrl ''abc123'' scenario_options) =
     [''w_400'', ''h_300'', ''c_fill'', ''q_auto'', ''f_webp'']"
    by (simp add: url_builder_defs url_directives_def directive_segment_def)
  from C3_directive_order [of "''abc123''" scenario_options] u
  show ?thesis by (simp add: directive_rank_def)
qed

text \<open>
  C4. Called without width, height and crop, and with quality and format left to their
  defaults, \<open>getOptimizedImageUrl\<close> returns the fixed prefix, then \<open>q_auto,f_auto/\<close>,
  then the asset identifier: both default directives are present.
\<close>

theorem C4_default_directives:
  "getOptimizedImageUrl publicId no_options = url_prefix @ ''q_auto,f_auto/'' @ publicId"
  by (simp add: getOptimizedImageUrl_def transformationString_def transformations_def
      no_options_def truthy_number_def truthy_string_def)

lemma js_number_text_no_q: "CHR ''q'' \<notin> set (js_number_text n)"
  using js_number_text_chars [of "CHR ''q''" n] by (auto simp: is_digit_def)

lemma dimensions_no_q: "x \<in> set (dimensions opts) \<Longrightarrow> CHR ''q'' \<notin> set x"
  by (auto simp: dimensions_def js_number_text_no_q split: if_splits)

lemma crop_text_no_q: "CHR ''q'' \<notin> set (crop_text c)"
  by (cases c) simp_all

lemma format_text_no_q: "CHR ''q'' \<notin> set (format_text f)"
  by (cases f) simp_all

lemma zero_quality_entries:
  "x \<in> set (transformations (opts\<lparr>quality := Some (QNumber (Number 0))\<rparr>)) \<Longrightarrow> CHR ''q'' \<notin> set x"
  using array_join_chars [of "CHR ''q''" "'',''" "dimensions (opts\<lparr>quality := Some (QNumber (Number 0))\<rparr>)"]
    dimensions_no_q [of _ "opts\<lparr>quality := Some (QNumber (Number 0))\<rparr>"]
  by (auto simp: transformations_def Let_def crop_text_no_q format_text_no_q split: if_splits)

lemma zero_quality_string:
  "CHR ''q'' \<notin> set (url_prefix @ transformationString (opts\<lparr>quality := Some (QNumber (Number 0))\<rparr>))"
  using array_join_chars [of "CHR ''q''" "'',''" "transformations (opts\<lparr>quality := Some (QNumber (Number 0))\<rparr>)"]
    zero_quality_entries [of _ opts]
  by (auto simp: transformationString_def url_prefix_def CLOUDINARY_CLOUD_NAME_def)

text \<open>
  C10. With \<open>quality: 0\<close> no quality directive is emitted, whatever the other options:
  no entry of \<open>transformations\<close> starts with \<open>q_\<close>, and the returned URL contains
  \<open>q_\<close> only where the asset identifier itself does.
\<close>

theorem C10_zero_quality:
  "filter (prefix ''q_'') (transformations (opts\<lparr>quality := Some (QNumber (Number 0))\<rparr>)) = [] \<and>
   sublist ''q_'' (getOptimizedImageUrl publicId (opts\<lparr>quality := Some (QNumber (Number 0))\<rparr>)) =
     sublist ''q_'' publicId"
proof
  show "filter (prefix ''q_'') (transformations (opts\<lparr>quality := Some (QNumber (Number 0))\<rparr>)) = []"
    using zero_quality_entries [of _ opts] by (fastforce simp: filter_empty_conv prefix_def)
  show "sublist ''q_'' (getOptimizedImageUrl publicId (opts\<lparr>quality := Some (QNumber (Number 0))\<rparr>)) =
     sublist ''q_'' publicId"
    using sublist_after_foreign_prefix [where r = "''_''" and b = publicId, OF zero_quality_string [of opts]]
    by (simp add: getOptimizedImageUrl_def)
qed

theorem C10_zero_quality_witness:
  "getOptimizedImageUrl ''abc123'' (scenario_options\<lparr>quality := Some (QNumber (Number 0))\<rparr>) =
     ''https://res.cloudinary.com/your-cloud-name/image/upload/w_400,h_300,c_fill,f_webp/abc123'' \<and>
   \<not> sublist ''q_'' (getOptimizedImageUrl ''abc123'' (scenario_options\<lparr>quality := Some (QNumber (Number 0))\<rparr>))"
  using C10_zero_quality [of scenario_options "''abc123''"]
  by (simp add: url_builder_defs sublist_Cons_right)

section \<open>Properties of the inverse extractor\<close>

lemma take_within_takeWhile:
  "k \<le> length (takeWhile P s) \<Longrightarrow> take k s = take k (takeWhile P s)"
proof -
  assume k: "k \<le> length (takeWhile P s)"
  have "take k s = take k (takeWhile P s @ dropWhile P s)" by simp
  also from k have "\<dots> = take k (takeWhile P s)" by (simp only: take_append) simp
  finally show ?thesis .
qed

lemma take_within_takeWhile_all:
  assumes "k \<le> length (takeWhile P s)" shows "filter (\<lambda>c. \<not> P c) (take k s) = []"
proof -
  have "set (take k (takeWhile P s)) \<subseteq> set (takeWhile P s)" by (rule set_take_subset)
  then have "\<forall>c \<in> set (take k (takeWhile P s)). P c" by (auto dest: set_takeWhileD)
  then show ?thesis
    by (simp only: take_within_takeWhile [OF assms]) (simp add: filter_empty_conv)
qed

lemma capture_upto_sound:
  "capture_upto k s = Some g \<Longrightarrow> k \<le> length (takeWhile (\<lambda>c. \<not> line_terminator c) s) \<Longrightarrow>
   \<exists>j. 0 < j \<and> j \<le> length s \<and> g = take j s \<and> filter line_terminator (take j s) = [] \<and>
       extension_end (drop j s)"
proof (induction k)
  case 0
  then show ?case by simp
next
  case (Suc k)
  show ?case
  proof (cases "extension_end (drop (Suc k) s)")
    case True
    with Suc.prems(1) have g: "g = take (Suc k) s" by simp
    have "length (takeWhile (\<lambda>c. \<not> line_terminator c) s) \<le> length s"
      by (rule length_takeWhile_le)
    with Suc.prems(2) have le: "Suc k \<le> length s" by simp
    from take_within_takeWhile_all [OF Suc.prems(2)]
    have "filter line_terminator (take (Suc k) s) = []" by simp
    with True g le show ?thesis by blast
  next
    case False
    with Suc.prems have "capture_upto k s = Some g" by simp
    moreover from Suc.prems(2) have "k \<le> length (takeWhile (\<lambda>c. \<not> line_terminator c) s)"
      by simp
    ultimately show ?thesis by (rule Suc.IH)
  qed
qed

lemma segment_with_extension_iff:
  "segment_with_extension s =
     (\<exists>k. 0 < k \<and> k \<le> length s \<and> filter line_terminator (take k s) = [] \<and>
          extension_end (drop k s))"
  unfolding segment_with_extension_def list_ex_iff set_upt Bex_def atLeastLessThan_iff less_Suc_eq_le
  by auto

lemma capture_sound: "capture s = Some g \<Longrightarrow> segment_with_extension s \<and> g \<noteq> []"
proof -
  assume "capture s = Some g"
  then have "capture_upto (length (takeWhile (\<lambda>c. \<not> line_terminator c) s)) s = Some g"
    by (simp add: capture_def)
  from capture_upto_sound [OF this] obtain j where
    j: "0 < j" "j \<le> length s" "g = take j s" "filter line_terminator (take j s) = []"
       "extension_end (drop j s)" by auto
  from j(1,2,3) have "g \<noteq> []" by auto
  moreover from j have "segment_with_extension s"
    unfolding segment_with_extension_iff by blast
  ultimately show ?thesis by simp
qed

lemma version_segment_sound:
  assumes "version_segment r = Some r'"
  shows "\<exists>m. m \<le> length r \<and> version_text (take m r) \<and> r' = drop m r"
proof -
  from assms obtain r0 where r: "r = CHR ''v'' # r0"
    and ds: "takeWhile is_digit r0 \<noteq> []"
    and sl: "prefix ''/'' (dropWhile is_digit r0)"
    and r': "r' = tl (dropWhile is_digit r0)"
    by (auto simp: version_segment_def startsWith_def split: list.splits if_splits)
  from sl r' have dw: "dropWhile is_digit r0 = CHR ''/'' # r'" by (auto simp: prefix_def)
  define ds where "ds = takeWhile is_digit r0"
  have r0: "r0 = ds @ CHR ''/'' # r'"
    using takeWhile_dropWhile_id [of is_digit r0] dw by (simp add: ds_def)
  have digits: "filter (\<lambda>d. \<not> is_digit d) ds = []"
    by (auto simp: ds_def filter_empty_conv dest: set_takeWhileD)
  let ?m = "Suc (Suc (length ds))"
  have tk: "take ?m r = CHR ''v'' # ds @ [CHR ''/'']" by (simp add: r r0)
  have dr: "drop ?m r = r'" by (simp add: r r0)
  have "version_text (take ?m r)"
    using ds digits by (simp add: tk version_text_def ds_def [symmetric] butlast_append)
  moreover have "?m \<le> length r" by (simp add: r r0)
  ultimately show ?thesis using dr by blast
qed

lemma pattern_here_iff:
  "pattern_here s =
     (startsWith s ''/upload/'' \<and>
      (\<exists>m. m \<le> length (drop 8 s) \<and> (m = 0 \<or> version_text (take m (drop 8 s))) \<and>
           segment_with_extension (drop m (drop 8 s))))"
  unfolding pattern_here_def list_ex_iff set_upt Bex_def atLeastLessThan_iff less_Suc_eq_le
  by auto

lemma match_here_sound: "match_here s = Some g \<Longrightarrow> pattern_here s \<and> g \<noteq> []"
proof -
  assume m: "match_here s = Some g"
  then have sw: "startsWith s ''/upload/''" by (auto simp: match_here_def split: if_splits)
  let ?r = "drop 8 s"
  from m sw consider (plain) "capture ?r = Some g"
    | (version) r' where "version_segment ?r = Some r'" "capture r' = Some g"
    by (auto simp: match_here_def Let_def split: option.splits)
  then show ?thesis
  proof cases
    case plain
    from capture_sound [OF plain] have "segment_with_extension (drop 0 ?r)" "g \<noteq> []" by simp_all
    with sw show ?thesis unfolding pattern_here_iff by blast
  next
    case version
    from version_segment_sound [OF version(1)] obtain m where
      "m \<le> length ?r" "version_text (take m ?r)" "r' = drop m ?r" by blast
    moreover from capture_sound [OF version(2)] have "segment_with_extension r'" "g \<noteq> []"
      by simp_all
    ultimately show ?thesis using sw unfolding pattern_here_iff by blast
  qed
qed

lemma matches_fixed_pattern_iff:
  "matches_fixed_pattern url = (\<exists>i. i \<le> length url \<and> pattern_here (drop i url))"
  unfolding matches_fixed_pattern_def list_ex_iff set_upt Bex_def atLeastLessThan_iff less_Suc_eq_le
  by auto

lemma matches_fixed_pattern_Cons:
  "matches_fixed_pattern (c # cs) = (pattern_here (c # cs) \<or> matches_fixed_pattern cs)"
proof
  assume "matches_fixed_pattern (c # cs)"
  then obtain i where i: "i \<le> length (c # cs)" "pattern_here (drop i (c # cs))"
    unfolding matches_fixed_pattern_iff by blast
  show "pattern_here (c # cs) \<or> matches_fixed_pattern cs"
  proof (cases i)
    case 0
    with i show ?thesis by simp
  next
    case (Suc j)
    with i have "j \<le> length cs" "pattern_here (drop j cs)" by simp_all
    then show ?thesis unfolding matches_fixed_pattern_iff by blast
  qed
next
  assume "pattern_here (c # cs) \<or> matches_fixed_pattern cs"
  then show "matches_fixed_pattern (c # cs)"
  proof
    assume "pattern_here (c # cs)"
    then have "0 \<le> length (c # cs) \<and> pattern_here (drop 0 (c # cs))" by simp
    then show ?thesis unfolding matches_fixed_pattern_iff by blast
  next
    assume "matches_fixed_pattern cs"
    then obtain j where "j \<le> length cs" "pattern_here (drop j cs)"
      unfolding matches_fixed_pattern_iff by blast
    then have "Suc j \<le> length (c # cs) \<and> pattern_here (drop (Suc j) (c # cs))" by simp
    then show ?thesis unfolding matches_fixed_pattern_iff by blast
  qed
qed

lemma regex_match_sound: "regex_match url = Some g \<Longrightarrow> matches_fixed_pattern url \<and> g \<noteq> []"
proof (induction url)
  case Nil
  then show ?case by (simp add: match_here_def startsWith_def)
next
  case (Cons c cs)
  show ?case
  proof (cases "match_here (c # cs)")
    case None
    with Cons.prems have "regex_match cs = Some g" by simp
    from Cons.IH [OF this] show ?thesis by (simp add: matches_fixed_pattern_Cons)
  next
    case (Some g')
    with Cons.prems have "g' = g" by simp
    with Some match_here_sound [of "c # cs" g] show ?thesis
      by (simp add: matches_fixed_pattern_Cons)
  qed
qed

lemma takeWhile_covers:
  assumes "k \<le> length s" "filter (\<lambda>c. \<not> P c) (take k s) = []"
  shows "k \<le> length (takeWhile P s)"
proof -
  from assms(2) have "\<forall>x \<in> set (take k s). P x" by (simp add: filter_empty_conv)
  then have "takeWhile P (take k s @ drop k s) = take k s @ takeWhile P (drop k s)"
    by (simp only: takeWhile_append2)
  then have "length (takeWhile P s) = length (take k s) + length (takeWhile P (drop k s))"
    by simp
  with assms(1) show ?thesis by simp
qed

lemma capture_upto_complete:
  "0 < k \<Longrightarrow> k \<le> n \<Longrightarrow> extension_end (drop k s) \<Longrightarrow> capture_upto n s \<noteq> None"
proof (induction n)
  case 0
  then show ?case by simp
next
  case (Suc n)
  show ?case
  proof (cases "extension_end (drop (Suc n) s)")
    case True
    then show ?thesis by simp
  next
    case False
    with Suc.prems have "k \<noteq> Suc n" by auto
    with Suc.prems have "k \<le> n" by simp
    from Suc.IH [OF Suc.prems(1) this Suc.prems(3)] False show ?thesis by simp
  qed
qed

lemma capture_complete: "segment_with_extension s \<Longrightarrow> capture s \<noteq> None"
proof -
  assume "segment_with_extension s"
  then obtain k where k: "0 < k" "k \<le> length s" "filter line_terminator (take k s) = []"
    "extension_end (drop k s)" unfolding segment_with_extension_iff by blast
  from k(3) have "filter (\<lambda>c. \<not> \<not> line_terminator c) (take k s) = []" by simp
  from takeWhile_covers [OF k(2) this]
  have "k \<le> length (takeWhile (\<lambda>c. \<not> line_terminator c) s)" .
  from capture_upto_complete [OF k(1) this k(4)] show ?thesis by (simp add: capture_def)
qed

lemma version_segment_complete:
  assumes "version_text v" shows "version_segment (v @ rest) = Some rest"
proof -
  from assms obtain r where v: "v = CHR ''v'' # r" and r: "r \<noteq> []" "last r = CHR ''/''"
    "butlast r \<noteq> []" "filter (\<lambda>d. \<not> is_digit d) (butlast r) = []"
    by (auto simp: version_text_def split: list.splits)
  define ds where "ds = butlast r"
  from r(1,2) have rr: "r = ds @ [CHR ''/'']"
    unfolding ds_def using append_butlast_last_id [of r] by simp
  from r(4) have dig: "\<forall>x \<in> set ds. is_digit x" by (simp add: ds_def filter_empty_conv)
  have nd: "\<not> is_digit CHR ''/''" by (simp add: is_digit_def)
  from dig nd have tw: "takeWhile is_digit (ds @ CHR ''/'' # rest) = ds"
    by simp
  from dig nd have dw: "dropWhile is_digit (ds @ CHR ''/'' # rest) = CHR ''/'' # rest"
    by simp
  from r(3) have "ds \<noteq> []" by (simp add: ds_def)
  with tw dw show ?thesis by (simp add: version_segment_def v rr startsWith_def)
qed

lemma match_here_complete: "pattern_here s \<Longrightarrow> match_here s \<noteq> None"
proof -
  assume "pattern_here s"
  then obtain m where sw: "startsWith s ''/upload/''"
    and m: "m = 0 \<or> version_text (take m (drop 8 s))"
    and seg: "segment_with_extension (drop m (drop 8 s))"
    unfolding pattern_here_iff by blast
  let ?r = "drop 8 s"
  from m show ?thesis
  proof
    assume "m = 0"
    with seg have "capture ?r \<noteq> None" by (simp add: capture_complete)
    with sw show ?thesis by (auto simp: match_here_def Let_def split: option.splits)
  next
    assume "version_text (take m ?r)"
    from version_segment_complete [OF this, of "drop m ?r"]
    have "version_segment ?r = Some (drop m ?r)" by (simp only: append_take_drop_id)
    moreover from seg have "capture (drop m ?r) \<noteq> None" by (rule capture_complete)
    ultimately show ?thesis using sw
      by (auto simp: match_here_def Let_def split: option.splits)
  qed
qed

lemma regex_match_complete: "matches_fixed_pattern url \<Longrightarrow> regex_match url \<noteq> None"
proof (induction url)
  case Nil
  then show ?case
    by (simp add: matches_fixed_pattern_def pattern_here_def startsWith_def)
next
  case (Cons c cs)
  from Cons.prems have "pattern_here (c # cs) \<or> matches_fixed_pattern cs"
    by (simp only: matches_fixed_pattern_Cons)
  then show ?case
  proof
    assume "pattern_here (c # cs)"
    from match_here_complete [OF this] show ?thesis by auto
  next
    assume "matches_fixed_pattern cs"
    from Cons.IH [OF this] show ?thesis by (auto split: option.splits)
  qed
qed

lemma extractPublicIdFromUrl_empty_iff:
  "(extractPublicIdFromUrl url = []) = (\<not> matches_fixed_pattern url)"
proof (cases "regex_match url")
  case None
  with regex_match_complete [of url] show ?thesis by (auto simp: extractPublicIdFromUrl_def)
next
  case (Some g)
  with regex_match_sound [OF Some] show ?thesis by (simp add: extractPublicIdFromUrl_def)
qed

text \<open>
  C7. \<open>extractPublicIdFromUrl\<close> is a total function and has no failing branch. For
  every input that is not in the language of the fixed pattern (the text \<open>/upload/\<close>,
  an optional version segment \<open>v<digits>/\<close>, a segment, a dot and an extension that
  ends the input) it returns the empty string.
\<close>

theorem C7_no_match_gives_empty:
  "\<not> matches_fixed_pattern url \<Longrightarrow> extractPublicIdFromUrl url = []"
proof -
  assume no: "\<not> matches_fixed_pattern url"
  have "regex_match url = None"
  proof (cases "regex_match url")
    case None
    then show ?thesis .
  next
    case (Some g)
    from regex_match_sound [OF Some] no show ?thesis by simp
  qed
  then show ?thesis by (simp add: extractPublicIdFromUrl_def)
qed

theorem C7_no_match_gives_empty_witness:
  "\<not> matches_fixed_pattern ''/upload/abc'' \<and> extractPublicIdFromUrl ''/upload/abc'' = []"
proof -
  have h: "\<not> matches_fixed_pattern ''/upload/abc''" by code_simp
  from C7_no_match_gives_empty [OF h] h show ?thesis by simp
qed

lemma no_dot_no_extension_end: "CHR ''.'' \<notin> set x \<Longrightarrow> \<not> extension_end x"
  by (cases x) (auto simp: extension_end_def)

lemma capture_upto_last_dot:
  "length g \<le> k \<Longrightarrow> g \<noteq> [] \<Longrightarrow> e \<noteq> [] \<Longrightarrow> CHR ''.'' \<notin> set e \<Longrightarrow>
   capture_upto k (g @ CHR ''.'' # e) = Some g"
proof (induction k)
  case 0
  then show ?case by simp
next
  case (Suc k)
  show ?case
  proof (cases "length g = Suc k")
    case True
    with Suc.prems show ?thesis by (simp add: extension_end_def)
  next
    case False
    with Suc.prems(1) have le: "length g \<le> k" by simp
    then have "drop (Suc k) (g @ CHR ''.'' # e) = drop (k - length g) e"
      by (simp add: Suc_diff_le)
    moreover have "CHR ''.'' \<notin> set (drop (k - length g) e)"
      using Suc.prems(4) by (auto dest: in_set_dropD)
    ultimately have "\<not> extension_end (drop (Suc k) (g @ CHR ''.'' # e))"
      by (simp only: no_dot_no_extension_end not_False_eq_True)
    with Suc.IH [OF le Suc.prems(2,3,4)] show ?thesis by simp
  qed
qed

lemma capture_last_dot:
  assumes "g \<noteq> []" "filter line_terminator g = []" "e \<noteq> []" "CHR ''.'' \<notin> set e"
  shows "capture (g @ CHR ''.'' # e) = Some g"
proof -
  from assms(2) have "\<forall>c \<in> set g. \<not> line_terminator c" by (simp add: filter_empty_conv)
  then have "takeWhile (\<lambda>c. \<not> line_terminator c) (g @ CHR ''.'' # e) =
      g @ takeWhile (\<lambda>c. \<not> line_terminator c) (CHR ''.'' # e)"
    by simp
  then have "length g \<le> length (takeWhile (\<lambda>c. \<not> line_terminator c) (g @ CHR ''.'' # e))"
    by simp
  from capture_upto_last_dot [OF this assms(1,3,4)] show ?thesis by (simp add: capture_def)
qed

lemma match_here_elsewhere: "\<not> startsWith s ''/upload/'' \<Longrightarrow> match_here s = None"
  by (simp add: match_here_def)

lemma regex_match_url_prefix:
  "match_here (''/upload/'' @ r) = Some g \<Longrightarrow> regex_match (url_prefix @ r) = Some g"
  by (simp add: url_prefix_def CLOUDINARY_CLOUD_NAME_def match_here_elsewhere startsWith_def)

lemma match_here_upload:
  "version_segment r = None \<Longrightarrow> match_here (''/upload/'' @ r) = capture r"
  by (simp add: match_here_def startsWith_def)

lemma version_segment_other_head: "c \<noteq> CHR ''v'' \<Longrightarrow> version_segment (c # r) = None"
  by (simp add: version_segment_def)

lemma directive_char_number: "c \<in> set (js_number_text n) \<Longrightarrow> directive_char c"
  using js_number_text_chars [of c n] by (auto simp: directive_char_def)

lemma directive_char_crop: "c \<in> set (crop_text v) \<Longrightarrow> directive_char c"
  by (cases v) (auto simp: directive_char_def)

lemma directive_char_format: "c \<in> set (format_text v) \<Longrightarrow> directive_char c"
  by (cases v) (auto simp: directive_char_def)

lemma directive_char_quality: "c \<in> set (quality_text v) \<Longrightarrow> directive_char c"
  by (cases v) (auto simp: directive_char_def dest: directive_char_number)

lemma directive_char_letters:
  "directive_char CHR ''w''" "directive_char CHR ''h''" "directive_char CHR ''c''"
  "directive_char CHR ''q''" "directive_char CHR ''f''" "directive_char CHR ''_''"
  "directive_char CHR '',''" "directive_char CHR ''/''"
  by (simp_all add: directive_char_def)

lemma directive_char_dimensions:
  "x \<in> set (dimensions opts) \<Longrightarrow> c \<in> set x \<Longrightarrow> directive_char c"
  by (auto simp: dimensions_def directive_char_letters dest: directive_char_number split: if_splits)

lemma directive_char_transformations:
  "x \<in> set (transformations opts) \<Longrightarrow> c \<in> set x \<Longrightarrow> directive_char c"
  using array_join_chars [of c "'',''" "dimensions opts"] directive_char_dimensions [of _ opts c]
  by (auto simp: transformations_def Let_def directive_char_letters
      dest: directive_char_crop directive_char_format directive_char_quality split: if_splits)

lemma directive_char_transformationString:
  "c \<in> set (transformationString opts) \<Longrightarrow> directive_char c"
  using array_join_chars [of c "'',''" "transformations opts"]
    directive_char_transformations [of _ opts c]
  by (auto simp: transformationString_def directive_char_letters split: if_splits)

lemma transformationString_head:
  "\<exists>c t. transformationString opts = c # t \<and> c \<noteq> CHR ''v''"
  by (cases "format opts"; cases "the (format opts)"; cases "crop opts"; cases "the (crop opts)")
     (simp_all add: transformationString_def transformations_def dimensions_def Let_def
        truthy_string_def)

lemma directive_char_not_line_terminator: "directive_char c \<Longrightarrow> \<not> line_terminator c"
  by (auto simp: directive_char_def is_digit_def line_terminator_def)

lemma extract_built_url:
  assumes "filter line_terminator assetId = []" "ext \<noteq> []" "CHR ''.'' \<notin> set ext"
  shows "extractPublicIdFromUrl (getOptimizedImageUrl assetId opts @ ''.'' @ ext) =
           transformationString opts @ assetId"
proof -
  let ?g = "transformationString opts @ assetId"
  from transformationString_head [of opts] obtain c t where
    hd: "transformationString opts = c # t" "c \<noteq> CHR ''v''" by blast
  then have g: "?g \<noteq> []" by simp
  have "\<forall>x \<in> set (transformationString opts). \<not> line_terminator x"
    by (blast dest: directive_char_transformationString directive_char_not_line_terminator)
  with assms(1) have lt: "filter line_terminator ?g = []" by (simp add: filter_empty_conv)
  have "version_segment (?g @ CHR ''.'' # ext) = None"
    using hd by (simp add: version_segment_other_head)
  then have "match_here (''/upload/'' @ ?g @ CHR ''.'' # ext) = capture (?g @ CHR ''.'' # ext)"
    by (rule match_here_upload)
  also have "\<dots> = Some ?g" using g lt assms(2,3) by (rule capture_last_dot)
  finally have "regex_match (url_prefix @ ?g @ CHR ''.'' # ext) = Some ?g"
    by (rule regex_match_url_prefix)
  then show ?thesis by (simp add: extractPublicIdFromUrl_def getOptimizedImageUrl_def)
qed

text \<open>
  C1 (as stated). The claim expects the extractor to give back the asset identifier
  from a built URL that carries an extension. For the identifier \<open>abc123\<close>, the default
  options and the extension \<open>jpg\<close> it does not.
\<close>

theorem C1_round_trip_counterexample:
  "''abc123'' \<noteq> [] \<and> CHR ''.'' \<notin> set ''abc123'' \<and>
   extractPublicIdFromUrl (getOptimizedImageUrl ''abc123'' no_options @ ''.jpg'') \<noteq> ''abc123''"
  by code_simp

text \<open>
  C1 (amended). For every asset identifier without a line break, every options value
  and every non-empty extension without a dot, the extractor applied to the built URL
  followed by a dot and the extension returns the directive string of the URL (the
  comma-joined directives and their closing slash) followed by the asset identifier; the
  directive string is never empty, so the result is never the bare asset identifier.
\<close>

theorem C1_extractor_keeps_directives:
  assumes "filter line_terminator assetId = []" "ext \<noteq> []" "CHR ''.'' \<notin> set ext"
  shows "extractPublicIdFromUrl (getOptimizedImageUrl assetId opts @ ''.'' @ ext) =
           transformationString opts @ assetId \<and>
         extractPublicIdFromUrl (getOptimizedImageUrl assetId opts @ ''.'' @ ext) \<noteq> assetId"
proof -
  from transformationString_head [of opts] have "transformationString opts \<noteq> []" by auto
  then have "transformationString opts @ assetId \<noteq> assetId" by simp
  with extract_built_url [OF assms, of opts] show ?thesis by simp
qed

theorem C1_extractor_keeps_directives_witness:
  "filter line_terminator ''abc123'' = [] \<and> ''jpg'' \<noteq> [] \<and> CHR ''.'' \<notin> set ''jpg'' \<and>
   extractPublicIdFromUrl (getOptimizedImageUrl ''abc123'' scenario_options @ ''.jpg'') =
     ''w_400,h_300,c_fill,q_auto,f_webp/abc123''"
proof -
  have h1: "filter line_terminator ''abc123'' = []" by (simp add: line_terminator_def)
  have h2: "''jpg'' \<noteq> []" by simp
  have h3: "CHR ''.'' \<notin> set ''jpg''" by simp
  from C1_extractor_keeps_directives [OF h1 h2 h3, of scenario_options] h1 h2 h3
  show ?thesis by (simp add: url_builder_defs)
qed

section \<open>Properties of the upload clients\<close>


text \<open>
  C5 (as stated). The claim lets both upload functions put the HTTP status of a rejected
  upload into the message of the error they throw. When the storage backend answers
  403, \<open>uploadImageToFirebase\<close> throws an error whose message does not contain \<open>403\<close>.
\<close>

theorem C5_firebase_message_counterexample:
  "firebase_try env_rejecting ''file:///photos/cat.jpg'' ''cat.jpg'' =
     Inl (StorageError 403 ''Firebase Storage: User does not have permission to access the object. (storage/unauthorized)'') \<and>
   uploadImageToFirebase env_rejecting ''file:///photos/cat.jpg'' ''cat.jpg'' =
     Inl (Error ''Failed to upload image to Firebase'') \<and>
   \<not> sublist (nat_toString 403) ''Failed to upload image to Firebase''"
  by (simp add: uploadImageToFirebase_def firebase_try_def env_rejecting_def startsWith_def
      nat_toString.simps digit_char_def sublist_Cons_right)

text \<open>
  C5 (amended). When the POST of \<open>uploadImageToCloudinary\<close> is answered with a status
  outside 200 to 299 and the body of the answer can be read, the function throws an
  \<open>Error\<close> whose message is \<open>Failed to upload image to Cloudinary: Upload failed:\<close>
  followed by the status and the status text, so the message contains the status.
  \<open>uploadImageToFirebase\<close> throws the fixed message \<open>Failed to upload image to
  Firebase\<close> for every failure.
\<close>

theorem C5_cloudinary_status_in_message:
  "(formData env imageUri fileName = Inr fd \<longrightarrow>
    http_post env CLOUDINARY_API_URL fd = Inr response \<longrightarrow>
    \<not> ok response \<longrightarrow> text_result response = Inr errorText \<longrightarrow>
      uploadImageToCloudinary env imageUri fileName =
        Inl (Error (''Failed to upload image to Cloudinary: Upload failed: '' @
                    nat_toString (status response) @ '' '' @ statusText response)) \<and>
      sublist (nat_toString (status response))
        (''Failed to upload image to Cloudinary: Upload failed: '' @
         nat_toString (status response) @ '' '' @ statusText response)) \<and>
   (firebase_try env imageUri fileName = Inl e \<longrightarrow>
      uploadImageToFirebase env imageUri fileName =
        Inl (Error ''Failed to upload image to Firebase''))"
proof (intro conjI impI)
  assume "formData env imageUri fileName = Inr fd"
    "http_post env CLOUDINARY_API_URL fd = Inr response"
    "\<not> ok response" "text_result response = Inr errorText"
  then have "cloudinary_try env imageUri fileName =
      Inl (Error (''Upload failed: '' @ nat_toString (status response) @ '' '' @
                  statusText response))"
    by (simp add: cloudinary_try_def)
  then show "uploadImageToCloudinary env imageUri fileName =
        Inl (Error (''Failed to upload image to Cloudinary: Upload failed: '' @
                    nat_toString (status response) @ '' '' @ statusText response))"
    by (simp add: uploadImageToCloudinary_def)
next
  show "sublist (nat_toString (status response))
        (''Failed to upload image to Cloudinary: Upload failed: '' @
         nat_toString (status response) @ '' '' @ statusText response)"
    unfolding sublist_def by blast
next
  assume "firebase_try env imageUri fileName = Inl e"
  then show "uploadImageToFirebase env imageUri fileName =
        Inl (Error ''Failed to upload image to Firebase'')"
    by (simp add: uploadImageToFirebase_def)
qed

theorem C5_cloudinary_status_in_message_witness:
  "formData env_rejecting ''file:///photos/cat.jpg'' ''cat.jpg'' =
     Inr [(''file'', FileRef ''file:///photos/cat.jpg'' ''image/jpeg'' ''cat.jpg''),
          (''upload_preset'', Text ''your-upload-preset''),
          (''folder'', Text ''uploads''),
          (''public_id'', Text ''1700000000000_cat'')] \<and>
   \<not> ok response_401 \<and>
   uploadImageToCloudinary env_rejecting ''file:///photos/cat.jpg'' ''cat.jpg'' =
     Inl (Error ''Failed to upload image to Cloudinary: Upload failed: 401 Unauthorized'') \<and>
   uploadImageToFirebase env_rejecting ''file:///photos/cat.jpg'' ''cat.jpg'' =
     Inl (Error ''Failed to upload image to Firebase'')"
proof -
  let ?fd = "[(''file'', FileRef ''file:///photos/cat.jpg'' ''image/jpeg'' ''cat.jpg''),
          (''upload_preset'', Text ''your-upload-preset''),
          (''folder'', Text ''uploads''),
          (''public_id'', Text ''1700000000000_cat'')]"
  have h1: "formData env_rejecting ''file:///photos/cat.jpg'' ''cat.jpg'' = Inr ?fd"
    by (simp add: formData_def file_field_def startsWith_def mimeType_def fileExtension_def
        truthy_string_def env_rejecting_def CLOUDINARY_UPLOAD_PRESET_def number_toString_def
        nat_toString.simps digit_char_def)
  have h2: "http_post env_rejecting CLOUDINARY_API_URL ?fd = Inr response_401"
    by (simp add: env_rejecting_def)
  have h3: "\<not> ok response_401" by (simp add: ok_def response_401_def)
  have h4: "text_result response_401 = Inr ''Unknown API key''" by (simp add: response_401_def)
  have h5: "firebase_try env_rejecting ''file:///photos/cat.jpg'' ''cat.jpg'' =
     Inl (StorageError 403 ''Firebase Storage: User does not have permission to access the object. (storage/unauthorized)'')"
    by (simp add: firebase_try_def env_rejecting_def)
  have s: "nat_toString (status response_401) = ''401''" "statusText response_401 = ''Unauthorized''"
    by (simp_all add: response_401_def nat_toString.simps digit_char_def)
  from C5_cloudinary_status_in_message
    [of env_rejecting "''file:///photos/cat.jpg''" "''cat.jpg''" ?fd response_401
        "''Unknown API key''"
        "StorageError 403 ''Firebase Storage: User does not have permission to access the object. (storage/unauthorized)''"]
    h1 h2 h3 h4 h5 s
  show ?thesis by simp
qed



section \<open>Properties of the image registries\<close>

lemma filter_other_ids: "i \<notin> f ` set xs \<Longrightarrow> filter (\<lambda>x. f x \<noteq> i) xs = xs"
  by (induction xs) auto

lemma images_setItem: "images (fst (setItem failure key v st)) = images st"
  by (simp add: setItem_def split: option.splits)

lemma images_addImage:
  "images (fst (addImage captured failure now date url fileName st)) =
     captured @ [\<lparr>img_id = number_toString now, img_url = url, img_uploadedAt = date,
                   img_fileName = fileName\<rparr>]"
  by (simp add: addImage_def Let_def images_setItem)

lemma images_removeImage:
  "images (fst (removeImage captured failure i st)) = filter (\<lambda>img. img_id img \<noteq> i) captured"
  by (simp add: removeImage_def Let_def images_setItem)

lemma uploadedImages_handleImageUpload:
  "uploadImageToFirebase env uri fileName = Inr downloadURL \<Longrightarrow>
   uploadedImages (fst (handleImageUpload env now date uri fileName st)) =
     \<lparr>ui_id = number_toString now, ui_url = downloadURL, ui_name = fileName,
      ui_uploadedAt = date\<rparr> # uploadedImages st"
  by (simp add: handleImageUpload_def)

lemma upload_accepted:
  "uploadImageToFirebase env_accepting ''file:///photos/cat.jpg'' ''cat.jpg'' =
     Inr ''https://firebasestorage.googleapis.com/o/images/1700000000000_cat.jpg''"
  by (simp add: uploadImageToFirebase_def firebase_try_def env_accepting_def startsWith_def
      number_toString_def nat_toString.simps digit_char_def)

lemma small_ids: "number_toString 2 = ''2''" "number_toString 3 = ''3''"
  by (simp_all add: number_toString_def nat_toString.simps digit_char_def)

text \<open>
  C8 (as stated). The claim lets every \<open>add(url, fileName)\<close> put the new record first.
  \<open>addImage\<close> of the persisted image context, called through the function of the
  current render on a registry that holds one record, does not leave the new record
  followed by the old one.
\<close>

theorem C8_addImage_counterexample:
  "images (fst (addImage (images context_one) None 2 2 ''u2'' ''b.jpg'' context_one)) \<noteq>
     \<lparr>img_id = number_toString 2, img_url = ''u2'', img_uploadedAt = 2, img_fileName = ''b.jpg''\<rparr> #
     images context_one"
  by (simp add: addImage_def setItem_def context_one_def first_image_def Let_def)

text \<open>
  C8 (amended). The upload screen keeps its list most-recently-added first: after a
  successful upload \<open>handleImageUpload\<close> puts the new record in front of the list as it
  is at that moment, which follows unchanged. \<open>addImage\<close> of the persisted image context
  puts the new record last: the registry becomes the list that the render which created
  the function had captured, in its order, followed by the new record. Through the
  function of the current render that list is the registry's previous list.
\<close>

theorem C8_registry_insertion:
  "(uploadImageToFirebase env uri name = Inr downloadURL \<longrightarrow>
      uploadedImages (fst (handleImageUpload env now date uri name st)) =
        \<lparr>ui_id = number_toString now, ui_url = downloadURL, ui_name = name,
         ui_uploadedAt = date\<rparr> # uploadedImages st) \<and>
   images (fst (addImage captured failure now date url fileName ctx)) =
     captured @ [\<lparr>img_id = number_toString now, img_url = url, img_uploadedAt = date,
                   img_fileName = fileName\<rparr>] \<and>
   (captured = images ctx \<longrightarrow>
      images (fst (addImage captured failure now date url fileName ctx)) =
        images ctx @ [\<lparr>img_id = number_toString now, img_url = url, img_uploadedAt = date,
                        img_fileName = fileName\<rparr>])"
  by (simp add: uploadedImages_handleImageUpload images_addImage)

theorem C8_registry_insertion_witness:
  "uploadImageToFirebase env_accepting ''file:///photos/cat.jpg'' ''cat.jpg'' =
     Inr ''https://firebasestorage.googleapis.com/o/images/1700000000000_cat.jpg'' \<and>
   uploadedImages (fst (handleImageUpload env_accepting 2 2 ''file:///photos/cat.jpg'' ''cat.jpg''
       screen_one)) =
     [\<lparr>ui_id = ''2'', ui_url = ''https://firebasestorage.googleapis.com/o/images/1700000000000_cat.jpg'',
       ui_name = ''cat.jpg'', ui_uploadedAt = 2\<rparr>,
      \<lparr>ui_id = ''1'', ui_url = ''u1'', ui_name = ''a.jpg'', ui_uploadedAt = 1\<rparr>] \<and>
   images (fst (addImage (images context_one) None 2 2 ''u2'' ''b.jpg'' context_one)) =
     [first_image, second_image] \<and>
   images (fst (addImage (images context_one) None 3 3 ''u3'' ''c.jpg'' context_two)) =
     [first_image,
      \<lparr>img_id = ''3'', img_url = ''u3'', img_uploadedAt = 3, img_fileName = ''c.jpg''\<rparr>]"
proof -
  have c: "images context_one = [first_image]" by (simp add: context_one_def)
  from C8_registry_insertion [of env_accepting "''file:///photos/cat.jpg''" "''cat.jpg''"
      "''https://firebasestorage.googleapis.com/o/images/1700000000000_cat.jpg''" 2 2
      screen_one "images context_one" None "''u2''" "''b.jpg''" context_one]
    C8_registry_insertion [of env_accepting "''file:///photos/cat.jpg''" "''cat.jpg''"
      "''https://firebasestorage.googleapis.com/o/images/1700000000000_cat.jpg''" 3 3
      screen_one "images context_one" None "''u3''" "''c.jpg''" context_two]
    upload_accepted small_ids c
  show ?thesis by (simp add: screen_one_def second_image_def)
qed

text \<open>
  C9 (as stated). The claim lets add followed by remove of the same id give back the
  prior list in every registry state where the id does not occur yet. In the persisted
  image context the registry holds two records and the id \<open>3\<close> is new; \<open>addImage\<close> and
  then \<open>removeImage\<close> of that id, both called through the function objects of the render
  that had captured only the first record, leave one record, not the prior two.
\<close>

theorem C9_stale_functions_counterexample:
  "number_toString 3 \<notin> img_id ` set (images context_two) \<and>
   images (fst (removeImage [first_image] None (number_toString 3)
                  (fst (addImage [first_image] None 3 3 ''u3'' ''c.jpg'' context_two)))) \<noteq>
     images context_two"
  by (simp add: images_removeImage small_ids context_two_def first_image_def second_image_def)

text \<open>
  C9 (amended). In the upload screen, for every list in which the id of the new record
  does not occur yet, a successful add followed by remove of that id gives back the
  previous list, element for element and in the same order. In the persisted image
  context the same holds when add is called through the function of a render that
  captured the registry's current list, and remove through the function of that render
  or of the render that follows the add, whatever the outcome of the two writes; when
  the second write succeeds the stored list is the previous list too.
\<close>

theorem C9_add_then_remove:
  "(number_toString now \<notin> img_id ` set (images ctx) \<longrightarrow>
    (captured = images ctx \<or>
     captured = images (fst (addImage (images ctx) f1 now date url fileName ctx))) \<longrightarrow>
      images (fst (removeImage captured f2 (number_toString now)
                     (fst (addImage (images ctx) f1 now date url fileName ctx)))) = images ctx \<and>
      async_storage (fst (removeImage captured None (number_toString now)
                     (fst (addImage (images ctx) f1 now date url fileName ctx)))) ''uploaded_images'' =
        Some (images ctx)) \<and>
   (uploadImageToFirebase env uri name = Inr downloadURL \<longrightarrow>
    number_toString now \<notin> ui_id ` set (uploadedImages st) \<longrightarrow>
      uploadedImages (screen_removeImage (number_toString now)
                        (fst (handleImageUpload env now date uri name st))) =
        uploadedImages st)"
proof (intro conjI impI)
  assume fresh: "number_toString now \<notin> img_id ` set (images ctx)"
    and cap: "captured = images ctx \<or>
     captured = images (fst (addImage (images ctx) f1 now date url fileName ctx))"
  from cap fresh have f: "filter (\<lambda>img. img_id img \<noteq> number_toString now) captured = images ctx"
    by (auto simp: images_addImage filter_other_ids)
  then show "images (fst (removeImage captured f2 (number_toString now)
                     (fst (addImage (images ctx) f1 now date url fileName ctx)))) = images ctx"
    by (simp add: images_removeImage)
  from f show "async_storage (fst (removeImage captured None (number_toString now)
                     (fst (addImage (images ctx) f1 now date url fileName ctx)))) ''uploaded_images'' =
        Some (images ctx)"
    by (simp add: removeImage_def Let_def setItem_def)
next
  assume "uploadImageToFirebase env uri name = Inr downloadURL"
    and "number_toString now \<notin> ui_id ` set (uploadedImages st)"
  then show "uploadedImages (screen_removeImage (number_toString now)
                        (fst (handleImageUpload env now date uri name st))) =
        uploadedImages st"
    by (simp add: screen_removeImage_def uploadedImages_handleImageUpload filter_other_ids)
qed

theorem C9_add_then_remove_witness:
  "number_toString 2 \<notin> img_id ` set (images context_one) \<and>
   images (fst (addImage (images context_one) None 2 2 ''u2'' ''b.jpg'' context_one)) =
     [first_image, second_image] \<and>
   images (fst (removeImage [first_image, second_image] None (number_toString 2)
                  (fst (addImage (images context_one) None 2 2 ''u2'' ''b.jpg'' context_one)))) =
     [first_image] \<and>
   images (fst (removeImage [first_image] None (number_toString 2)
                  (fst (addImage (images context_one) None 2 2 ''u2'' ''b.jpg'' context_one)))) =
     [first_image] \<and>
   number_toString 2 \<notin> ui_id ` set (uploadedImages screen_one) \<and>
   uploadedImages (screen_removeImage (number_toString 2)
       (fst (handleImageUpload env_accepting 2 2 ''file:///photos/cat.jpg'' ''cat.jpg''
          screen_one))) = uploadedImages screen_one"
proof -
  have h1: "number_toString 2 \<notin> img_id ` set (images context_one)"
    by (simp add: small_ids context_one_def first_image_def)
  have h2: "number_toString 2 \<notin> ui_id ` set (uploadedImages screen_one)"
    by (simp add: small_ids screen_one_def)
  have c: "images context_one = [first_image]" by (simp add: context_one_def)
  have a: "images (fst (addImage (images context_one) None 2 2 ''u2'' ''b.jpg'' context_one)) =
     [first_image, second_image]"
    by (simp add: images_addImage c small_ids second_image_def)
  from C9_add_then_remove [of 2 context_one "[first_image, second_image]" None 2 "''u2''"
      "''b.jpg''" None env_accepting "''file:///photos/cat.jpg''" "''cat.jpg''"
      "''https://firebasestorage.googleapis.com/o/images/1700000000000_cat.jpg''" screen_one]
    C9_add_then_remove [of 2 context_one "[first_image]" None 2 "''u2''"
      "''b.jpg''" None env_accepting "''file:///photos/cat.jpg''" "''cat.jpg''"
      "''https://firebasestorage.googleapis.com/o/images/1700000000000_cat.jpg''" screen_one]
    upload_accepted h1 h2 c a
  show ?thesis by simp
qed

end
